theory Spec2Isabelle
  imports Main
begin

section \<open>Values at the JavaScript boundary\<close>

text \<open>
  The screen component \<^verbatim>\<open>NFCReaderScreen\<close> reads a tag record delivered by the NFC
  library. Its fields \<^verbatim>\<open>id\<close>, \<^verbatim>\<open>techTypes\<close> and \<^verbatim>\<open>type\<close> are optional, so each is an
  \<open>option\<close>; a string is the list of its characters. The record's type is declared by
  the library; only the three fields the component reads are kept. Field names carry
  a prefix because \<open>id\<close> is a constant of HOL: \<open>tag_id\<close> is \<^verbatim>\<open>tag.id\<close>, and so on.
\<close>

record TagEvent =
  tag_id :: "string option"
  tag_techTypes :: "string list option"
  tag_type :: "string option"

text \<open>
  \<^verbatim>\<open>interface CardData { id; techTypes; type; cardNumber; scannedAt }\<close>
\<close>

record CardData =
  card_id :: string
  card_techTypes :: "string list"
  card_type :: string
  cardNumber :: string
  scannedAt :: string

text \<open>
  A thrown value is either an \<^verbatim>\<open>Error\<close> object, which has a message, or any other value.
\<close>

datatype thrown = ErrorObj string | NonError

text \<open>
  Truthiness of an optional string: \<^verbatim>\<open>undefined\<close> and the empty string are falsy.
\<close>

definition falsy :: "string option \<Rightarrow> bool" where
  "falsy v = (case v of None \<Rightarrow> True | Some s \<Rightarrow> s = [])"

text \<open>\<^verbatim>\<open>v || d\<close> on an optional string.\<close>

definition or_default :: "string option \<Rightarrow> string \<Rightarrow> string" where
  "or_default v d = (case v of None \<Rightarrow> d | Some s \<Rightarrow> if s = [] then d else s)"

text \<open>
  \<^verbatim>\<open>String.prototype.slice(b)\<close> with one argument: a negative start counts from the
  end and is clamped at the beginning of the string, a positive one is clamped at its
  end.
\<close>

definition slice :: "string \<Rightarrow> int \<Rightarrow> string" where
  "slice s b =
     (let n = int (length s);
          from = (if b < 0 then max (n + b) 0 else min b n)
      in drop (nat from) s)"

text \<open>
  The method call \<^verbatim>\<open>v.slice(b)\<close> on an optional string: on \<^verbatim>\<open>undefined\<close> it throws a
  \<^verbatim>\<open>TypeError\<close>, which is an \<^verbatim>\<open>Error\<close> object.
\<close>

definition call_slice :: "string option \<Rightarrow> int \<Rightarrow> thrown + string" where
  "call_slice v b =
     (case v of None \<Rightarrow> Inl (ErrorObj ''TypeError'') | Some s \<Rightarrow> Inr (slice s b))"

section \<open>The tag parser\<close>

text \<open>
  \<^verbatim>\<open>
  const maskCardNumber = (id: string | undefined): string => {
    if (!id) return '****';
    const lastFour = id.slice(-4);
    return `**** **** **** ${lastFour}`;
  };
  \<close>
\<close>

definition maskCardNumber :: "string option \<Rightarrow> thrown + string" where
  "maskCardNumber v =
     (if falsy v then Inr ''****''
      else case call_slice v (- 4) of
             Inl e \<Rightarrow> Inl e
           | Inr lastFour \<Rightarrow> Inr (''**** **** **** '' @ lastFour))"

text \<open>
  \<^verbatim>\<open>
  const parseCardData = (tag: TagEvent): CardData => {
    const data: CardData = {
      id: tag.id || 'N/A',
      techTypes: tag.techTypes || [],
      type: tag.type || 'Unknown',
      cardNumber: maskCardNumber(tag.id),
      scannedAt: new Date().toLocaleString(),
    };
    return data;
  };
  \<close>
  The clock is read inside the function; its formatted reading is the argument \<open>now\<close>.
  An array is truthy even when empty, so \<^verbatim>\<open>tag.techTypes || []\<close> replaces only an
  absent list.
\<close>

definition parseCardData :: "string \<Rightarrow> TagEvent \<Rightarrow> thrown + CardData" where
  "parseCardData now tag =
     (case maskCardNumber (tag_id tag) of
        Inl e \<Rightarrow> Inl e
      | Inr masked \<Rightarrow>
          Inr \<lparr> card_id = or_default (tag_id tag) ''N/A'',
                card_techTypes = (case tag_techTypes tag of None \<Rightarrow> [] | Some ts \<Rightarrow> ts),
                card_type = or_default (tag_type tag) ''Unknown'',
                cardNumber = masked,
                scannedAt = now \<rparr>)"

section \<open>The screen's state and the hardware it drives\<close>

text \<open>
  The component keeps four state variables (\<^verbatim>\<open>useState\<close>): \<open>isScanning\<close>,
  \<open>nfcSupported\<close>, \<open>cardData\<close> and \<open>error\<close>. The remaining fields record what the
  component has done to \<^verbatim>\<open>NfcManager\<close> and which of its asynchronous functions are
  suspended:
  \<^item> \<open>acquireCalls\<close> counts calls of \<^verbatim>\<open>NfcManager.requestTechnology\<close>;
  \<^item> \<open>releaseCalls\<close> counts calls of \<^verbatim>\<open>NfcManager.cancelTechnologyRequest\<close>;
  \<^item> \<open>held\<close> says whether the radio is reserved: an acquisition call reserves it and
    a release call gives it back;
  \<^item> \<open>pending\<close> counts the invocations of \<^verbatim>\<open>startScan\<close> that are suspended at
    \<^verbatim>\<open>await NfcManager.requestTechnology(...)\<close>;
  \<^item> \<open>probeStage\<close> says where \<^verbatim>\<open>checkNfcSupport\<close>, called once by the mount effect, is
    suspended: at \<^verbatim>\<open>await NfcManager.isSupported()\<close>, at \<^verbatim>\<open>await NfcManager.start()\<close>,
    or nowhere any more.
  Commands and presses can arrive while any of these waits is outstanding.
  \<^verbatim>\<open>getTag()\<close> and the release call are taken to settle at once. Alert dialogs,
  console output and navigation do not change these fields and are left out.
\<close>

datatype probe_stage = AwaitingProbe | AwaitingInit | Settled

record Screen =
  isScanning :: bool
  nfcSupported :: bool
  cardData :: "CardData option"
  error :: "string option"
  pending :: nat
  held :: bool
  acquireCalls :: nat
  releaseCalls :: nat
  probeStage :: probe_stage

text \<open>
  The state after the first render: the initial values of the four \<^verbatim>\<open>useState\<close>
  hooks (\<open>nfcSupported\<close> starts as \<^verbatim>\<open>true\<close>), nothing called on the radio, and
  \<^verbatim>\<open>checkNfcSupport\<close> waiting for the capability probe.
\<close>

definition initial :: Screen where
  "initial =
     \<lparr> isScanning = False, nfcSupported = True, cardData = None, error = None,
       pending = 0, held = False, acquireCalls = 0, releaseCalls = 0,
       probeStage = AwaitingProbe \<rparr>"

text \<open>
  \<^verbatim>\<open>
  const checkNfcSupport = async () => {
    try {
      const supported = await NfcManager.isSupported();
      setNfcSupported(supported);
      if (supported) { await NfcManager.start(); } else { Alert.alert(...); }
    } catch (err) { console.error(...); setNfcSupported(false); }
  };
  \<close>
  The function has two suspension points, so it is two continuations.
  \<open>checkNfcSupport_probed r\<close> runs when \<^verbatim>\<open>isSupported()\<close> settles with \<open>r\<close> (a thrown
  value or a boolean): it stores the answer and, when the answer is \<^verbatim>\<open>true\<close>, calls
  \<^verbatim>\<open>start()\<close> and waits again. \<open>checkNfcSupport_started r\<close> runs when \<^verbatim>\<open>start()\<close>
  settles with \<open>r\<close>.
\<close>

definition checkNfcSupport_probed :: "thrown + bool \<Rightarrow> Screen \<Rightarrow> Screen" where
  "checkNfcSupport_probed r s =
     (case r of
        Inl err \<Rightarrow> s\<lparr>nfcSupported := False, probeStage := Settled\<rparr>
      | Inr supported \<Rightarrow>
          (let s1 = s\<lparr>nfcSupported := supported\<rparr>
           in if supported then s1\<lparr>probeStage := AwaitingInit\<rparr>
              else s1\<lparr>probeStage := Settled\<rparr>))"

definition checkNfcSupport_started :: "thrown + unit \<Rightarrow> Screen \<Rightarrow> Screen" where
  "checkNfcSupport_started r s =
     (case r of
        Inl err \<Rightarrow> s\<lparr>nfcSupported := False, probeStage := Settled\<rparr>
      | Inr u \<Rightarrow> s\<lparr>probeStage := Settled\<rparr>)"

text \<open>
  \<^verbatim>\<open>
  const cleanUpNfc = async () => {
    try { await NfcManager.cancelTechnologyRequest(); }
    catch (err) { console.log('Cleanup error:', err); }
  };
  \<close>
  The release call is made; whether it throws or not, control continues after it.
\<close>

definition cleanUpNfc :: "Screen \<Rightarrow> Screen" where
  "cleanUpNfc s = s\<lparr>held := False, releaseCalls := Suc (releaseCalls s)\<rparr>"

text \<open>
  \<^verbatim>\<open>startScan\<close> up to its suspension point: the guard on \<open>nfcSupported\<close>, the three
  resets, and the acquisition call whose result is awaited.
\<close>

definition startScan :: "Screen \<Rightarrow> Screen" where
  "startScan s =
     (if \<not> nfcSupported s then s
      else s\<lparr> isScanning := True, error := None, cardData := None,
              acquireCalls := Suc (acquireCalls s), held := True,
              pending := Suc (pending s) \<rparr>)"

text \<open>
  How the awaited part of an attempt ends: \<open>Resolved tag now\<close> when
  \<^verbatim>\<open>requestTechnology\<close> is fulfilled and \<^verbatim>\<open>getTag()\<close> returns \<open>tag\<close> (\<open>None\<close> for
  \<^verbatim>\<open>null\<close>), the clock reading \<open>now\<close> at that moment; \<open>Rejected err\<close> when either call
  throws \<open>err\<close>.
\<close>

datatype outcome = Resolved "TagEvent option" string | Rejected thrown

text \<open>
  \<^verbatim>\<open>const errorMessage = err instanceof Error ? err.message : 'Failed to read NFC tag';\<close>
\<close>

definition errorMessage :: "thrown \<Rightarrow> string" where
  "errorMessage err = (case err of ErrorObj m \<Rightarrow> m | NonError \<Rightarrow> ''Failed to read NFC tag'')"

text \<open>
  The rest of \<^verbatim>\<open>startScan\<close>, run when the wait settles: the body of \<^verbatim>\<open>try\<close> after the
  await, the \<^verbatim>\<open>catch\<close> block, and the \<^verbatim>\<open>finally\<close> block
  (\<^verbatim>\<open>setIsScanning(false); await cleanUpNfc();\<close>). The parser is called inside \<^verbatim>\<open>try\<close>,
  so a value it throws is caught like any other.
\<close>

definition startScan_resume :: "outcome \<Rightarrow> Screen \<Rightarrow> Screen" where
  "startScan_resume out s =
     (let s1 = (case out of
                  Rejected err \<Rightarrow> s\<lparr>error := Some (errorMessage err)\<rparr>
                | Resolved None now \<Rightarrow> s
                | Resolved (Some tag) now \<Rightarrow>
                    (case parseCardData now tag of
                       Inl err \<Rightarrow> s\<lparr>error := Some (errorMessage err)\<rparr>
                     | Inr d \<Rightarrow> s\<lparr>cardData := Some d\<rparr>))
      in cleanUpNfc (s1\<lparr>isScanning := False, pending := pending s1 - 1\<rparr>))"

text \<open>
  \<^verbatim>\<open>const cancelScan = async () => { setIsScanning(false); await cleanUpNfc(); };\<close>
\<close>

definition cancelScan :: "Screen \<Rightarrow> Screen" where
  "cancelScan s = cleanUpNfc (s\<lparr>isScanning := False\<rparr>)"

section \<open>Commands, rendered controls and runs\<close>

text \<open>
  What the component renders decides which handler a press can reach: without NFC
  support only the way back is shown; while scanning, the Cancel button; otherwise the
  Start button.
\<close>

datatype control = StartButton | CancelButton

definition press :: "control \<Rightarrow> Screen \<Rightarrow> Screen" where
  "press c s =
     (if \<not> nfcSupported s then s
      else if isScanning s
           then (case c of CancelButton \<Rightarrow> cancelScan s | StartButton \<Rightarrow> s)
           else (case c of StartButton \<Rightarrow> startScan s | CancelButton \<Rightarrow> s))"

text \<open>
  An event is a command that invokes a handler directly (\<open>StartCmd\<close>, \<open>CancelCmd\<close>), a
  press of a control, the settling of a suspended tag wait, or the settling of one of
  the two waits of \<^verbatim>\<open>checkNfcSupport\<close>. A settling with nothing suspended at that
  point resumes nothing. A run starts from \<open>initial\<close>, so events can come before the
  capability probe has answered.
\<close>

datatype event =
  StartCmd | CancelCmd | Press control | Settle outcome
  | ProbeSettled "thrown + bool" | InitSettled "thrown + unit"

definition step :: "event \<Rightarrow> Screen \<Rightarrow> Screen" where
  "step e s =
     (case e of
        StartCmd \<Rightarrow> startScan s
      | CancelCmd \<Rightarrow> cancelScan s
      | Press c \<Rightarrow> press c s
      | Settle out \<Rightarrow> (if pending s = 0 then s else startScan_resume out s)
      | ProbeSettled r \<Rightarrow>
          (if probeStage s = AwaitingProbe then checkNfcSupport_probed r s else s)
      | InitSettled r \<Rightarrow>
          (if probeStage s = AwaitingInit then checkNfcSupport_started r s else s))"

fun run :: "event list \<Rightarrow> Screen \<Rightarrow> Screen" where
  "run [] s = s"
| "run (e # es) s = run es (step e s)"

text \<open>
  What the component shows, as its render function decides it. The error box is
  rendered by \<^verbatim>\<open>{error && (...)}\<close>, so an empty error string shows no box; the card box by
  \<^verbatim>\<open>{cardData && (...)}\<close>.
\<close>

definition error_box :: "Screen \<Rightarrow> bool" where
  "error_box s = (\<not> falsy (error s))"

definition card_box :: "Screen \<Rightarrow> bool" where
  "card_box s = (cardData s \<noteq> None)"

text \<open>
  The component has no phase variable; the phase is read off what it shows. Without
  NFC support the render function returns the unsupported view before anything else.
  Otherwise the scanning indicator replaces the Start button while \<open>isScanning\<close> is
  set. When not scanning: \<open>Failed\<close> shows the error box alone, \<open>Success\<close> the card box
  alone, \<open>Idle\<close> neither; a screen showing both boxes is in none of the phases. The
  phases before the capability probe has answered cannot be told apart from \<open>Idle\<close> in
  what is shown and are never produced.
\<close>

datatype phase = Uninitialized | CheckingSupport | Unsupported | Idle | Scanning | Success | Failed

definition phase_of :: "Screen \<Rightarrow> phase option" where
  "phase_of s =
     (if \<not> nfcSupported s then Some Unsupported
      else if isScanning s then Some Scanning
      else if error_box s then (if card_box s then None else Some Failed)
      else if card_box s then Some Success
      else Some Idle)"

text \<open>
  What every state of a run has in common: the radio is reserved exactly while
  \<open>isScanning\<close> is set; while it is set no error and no card are stored and some
  invocation of \<^verbatim>\<open>startScan\<close> is suspended; and NFC support is only ever denied by
  \<^verbatim>\<open>checkNfcSupport\<close> as it finishes.
\<close>

definition consistent :: "Screen \<Rightarrow> bool" where
  "consistent s =
     (held s = isScanning s \<and>
      (if isScanning s then error s = None \<and> cardData s = None \<and> 0 < pending s else True) \<and>
      (if nfcSupported s then True else probeStage s = Settled))"

section \<open>Every handler keeps the state consistent\<close>

lemma consistent_initial: "consistent initial"
  by (simp add: consistent_def initial_def)

lemma consistent_startScan: "consistent s \<Longrightarrow> consistent (startScan s)"
  by (simp add: consistent_def startScan_def)

lemma consistent_cancelScan: "consistent s \<Longrightarrow> consistent (cancelScan s)"
  by (simp add: consistent_def cancelScan_def cleanUpNfc_def split: if_splits)

lemma consistent_resume:
  "consistent s \<Longrightarrow> 0 < pending s \<Longrightarrow> consistent (startScan_resume out s)"
  by (cases out) (auto simp: consistent_def startScan_resume_def cleanUpNfc_def Let_def
           split: if_splits option.splits sum.splits)

lemma consistent_press: "consistent s \<Longrightarrow> consistent (press c s)"
  by (cases c) (simp_all add: press_def consistent_startScan consistent_cancelScan)

lemma consistent_probed: "consistent s \<Longrightarrow> consistent (checkNfcSupport_probed r s)"
  by (cases r) (auto simp: consistent_def checkNfcSupport_probed_def Let_def split: if_splits)

lemma consistent_started: "consistent s \<Longrightarrow> consistent (checkNfcSupport_started r s)"
  by (cases r) (auto simp: consistent_def checkNfcSupport_started_def split: if_splits)

lemma consistent_step: "consistent s \<Longrightarrow> consistent (step e s)"
  by (cases e)
     (simp_all add: step_def consistent_startScan consistent_cancelScan consistent_press
        consistent_resume consistent_probed consistent_started)

lemma consistent_run: "consistent s \<Longrightarrow> consistent (run es s)"
  by (induction es arbitrary: s) (simp_all add: consistent_step)

lemma consistent_reachable: "consistent (run es initial)"
  by (rule consistent_run [OF consistent_initial])

section \<open>Masking\<close>

lemma slice_last4: "slice s (- 4) = drop (length s - 4) s"
proof -
  have "nat (max (int (length s) + - 4) 0) = length s - 4"
    by (simp add: max_def) linarith
  then show ?thesis
    by (simp add: slice_def Let_def)
qed

text \<open>
  Claim C2, as the code has it. An absent or empty identifier is masked to \<open>****\<close>. Any
  other identifier is masked to \<open>**** **** **** \<close> followed by its last four
  characters; an identifier of one to three characters has no more than that, so all
  of it follows the stars.
\<close>

theorem maskCardNumber_shape:
  "maskCardNumber None = Inr ''****'' \<and>
   maskCardNumber (Some []) = Inr ''****'' \<and>
   (4 \<le> length s \<longrightarrow>
      maskCardNumber (Some s) = Inr (''**** **** **** '' @ drop (length s - 4) s) \<and>
      length (drop (length s - 4) s) = 4) \<and>
   (s \<noteq> [] \<and> length s < 4 \<longrightarrow> maskCardNumber (Some s) = Inr (''**** **** **** '' @ s))"
proof -
  have absent: "maskCardNumber None = Inr ''****''"
    by (simp add: maskCardNumber_def falsy_def)
  have empty: "maskCardNumber (Some []) = Inr ''****''"
    by (simp add: maskCardNumber_def falsy_def)
  have general: "maskCardNumber (Some s) = Inr (''**** **** **** '' @ drop (length s - 4) s)"
    if "s \<noteq> []"
    using that by (simp add: maskCardNumber_def falsy_def call_slice_def slice_last4)
  have long: "maskCardNumber (Some s) = Inr (''**** **** **** '' @ drop (length s - 4) s) \<and>
      length (drop (length s - 4) s) = 4"
    if len: "4 \<le> length s"
  proof
    from len have "s \<noteq> []" by auto
    then show "maskCardNumber (Some s) = Inr (''**** **** **** '' @ drop (length s - 4) s)"
      by (rule general)
    show "length (drop (length s - 4) s) = 4" using len by simp
  qed
  have short: "maskCardNumber (Some s) = Inr (''**** **** **** '' @ s)"
    if "s \<noteq> []" "length s < 4"
    using that general by simp
  from absent empty long short show ?thesis by blast
qed

theorem maskCardNumber_shape_witness:
  "maskCardNumber (Some ''04A1B2C3'') = Inr ''**** **** **** B2C3'' \<and>
   maskCardNumber (Some ''7F'') = Inr ''**** **** **** 7F''"
  using maskCardNumber_shape [of "''04A1B2C3''"] maskCardNumber_shape [of "''7F''"]
  by simp

text \<open>
  Claim C2 as the specification words it fails: the two-character identifier \<open>AB\<close> is
  not replaced by \<open>****\<close>; both of its characters are shown.
\<close>

theorem maskCardNumber_short_counterexample:
  "length ''AB'' < 4 \<and>
   maskCardNumber (Some ''AB'') = Inr ''**** **** **** AB'' \<and>
   maskCardNumber (Some ''AB'') \<noteq> Inr ''****''"
  by (simp add: maskCardNumber_def falsy_def call_slice_def slice_def)

section \<open>Parsing a tag\<close>

text \<open>
  Claim C5, as the code has it. For every tag record and every clock reading the parser
  returns a summary and throws nothing; it changes no state. Its result is fixed by the
  record except for \<open>scannedAt\<close>, which is the clock reading taken inside the parser.
  Absent fields get their defaults: \<open>N/A\<close> and the mask \<open>****\<close> for the identifier, the
  empty list for the technologies, \<open>Unknown\<close> for the type.
\<close>

theorem parseCardData_total:
  "\<exists>d. parseCardData now tag = Inr d \<and>
        scannedAt d = now \<and>
        (\<forall>later. parseCardData later tag = Inr (d\<lparr>scannedAt := later\<rparr>)) \<and>
        (tag_id tag = None \<longrightarrow> card_id d = ''N/A'' \<and> cardNumber d = ''****'') \<and>
        (tag_techTypes tag = None \<longrightarrow> card_techTypes d = []) \<and>
        (tag_type tag = None \<longrightarrow> card_type d = ''Unknown'')"
proof (cases "falsy (tag_id tag)")
  case True
  then show ?thesis
    by (auto simp: parseCardData_def maskCardNumber_def or_default_def)
next
  case False
  then obtain s where "tag_id tag = Some s"
    by (cases "tag_id tag") (auto simp: falsy_def)
  with False show ?thesis
    by (auto simp: parseCardData_def maskCardNumber_def call_slice_def or_default_def)
qed

theorem parseCardData_total_witness:
  "\<exists>d. parseCardData ''11/2/2026, 9:00:00 AM''
          \<lparr>tag_id = None, tag_techTypes = None, tag_type = None\<rparr> = Inr d \<and>
        card_id d = ''N/A'' \<and> cardNumber d = ''****'' \<and> card_techTypes d = [] \<and>
        card_type d = ''Unknown'' \<and> scannedAt d = ''11/2/2026, 9:00:00 AM''"
  using parseCardData_total [of "''11/2/2026, 9:00:00 AM''"
          "\<lparr>tag_id = None, tag_techTypes = None, tag_type = None\<rparr>"]
  by auto

text \<open>
  Claim C5 says the parser is pure. It reads the clock: the same tag record parsed at
  two moments gives two different summaries.
\<close>

theorem parseCardData_clock_counterexample:
  "parseCardData ''11/2/2026, 9:00:00 AM''
      \<lparr>tag_id = Some ''04A1B2C3'', tag_techTypes = None, tag_type = None\<rparr>
   \<noteq> parseCardData ''11/2/2026, 9:00:01 AM''
      \<lparr>tag_id = Some ''04A1B2C3'', tag_techTypes = None, tag_type = None\<rparr>"
  by (simp add: parseCardData_def maskCardNumber_def falsy_def call_slice_def)

text \<open>
  Claim C8. The identifier \<open>04A1B2C3\<close> with type \<open>ISO14443\<close> and no technologies (the
  list absent, or present and empty) is parsed to the masked number
  \<open>**** **** **** B2C3\<close>, the tag id \<open>04A1B2C3\<close>, the tag type \<open>ISO14443\<close> and an empty
  list of technologies.
\<close>

theorem parseCardData_scenario:
  "parseCardData now
      \<lparr>tag_id = Some ''04A1B2C3'', tag_techTypes = None, tag_type = Some ''ISO14443''\<rparr>
   = Inr \<lparr>card_id = ''04A1B2C3'', card_techTypes = [], card_type = ''ISO14443'',
          cardNumber = ''**** **** **** B2C3'', scannedAt = now\<rparr> \<and>
   parseCardData now
      \<lparr>tag_id = Some ''04A1B2C3'', tag_techTypes = Some [], tag_type = Some ''ISO14443''\<rparr>
   = Inr \<lparr>card_id = ''04A1B2C3'', card_techTypes = [], card_type = ''ISO14443'',
          cardNumber = ''**** **** **** B2C3'', scannedAt = now\<rparr>"
  by (simp add: parseCardData_def maskCardNumber_def falsy_def call_slice_def slice_def
        or_default_def)

text \<open>
  Claim C9, as the code has it. The technologies of the summary are the list the
  hardware delivered, in its order and with its repetitions (the empty list when none
  was delivered); the summary's list is free of duplicates exactly when the delivered
  list is.
\<close>

theorem parseCardData_technologies:
  "\<exists>d. parseCardData now tag = Inr d \<and>
        card_techTypes d = (case tag_techTypes tag of None \<Rightarrow> [] | Some ts \<Rightarrow> ts) \<and>
        distinct (card_techTypes d) =
          (case tag_techTypes tag of None \<Rightarrow> True | Some ts \<Rightarrow> distinct ts)"
proof (cases "falsy (tag_id tag)")
  case True
  then show ?thesis
    by (auto simp: parseCardData_def maskCardNumber_def split: option.splits)
next
  case False
  then obtain s where "tag_id tag = Some s"
    by (cases "tag_id tag") (auto simp: falsy_def)
  with False show ?thesis
    by (auto simp: parseCardData_def maskCardNumber_def call_slice_def split: option.splits)
qed

theorem parseCardData_technologies_witness:
  "\<exists>d. parseCardData ''t''
          \<lparr>tag_id = None, tag_techTypes = Some [''IsoDep'', ''NfcA''], tag_type = None\<rparr> = Inr d \<and>
        card_techTypes d = [''IsoDep'', ''NfcA''] \<and> distinct (card_techTypes d)"
  using parseCardData_technologies [of "''t''"
          "\<lparr>tag_id = None, tag_techTypes = Some [''IsoDep'', ''NfcA''], tag_type = None\<rparr>"]
  by auto

text \<open>
  Claim C9 says the list never has duplicates. The parser removes none: a technology
  the hardware lists twice appears twice in the summary.
\<close>

theorem parseCardData_duplicates_counterexample:
  "parseCardData ''t''
      \<lparr>tag_id = None, tag_techTypes = Some [''NfcA'', ''NfcA''], tag_type = None\<rparr>
   = Inr \<lparr>card_id = ''N/A'', card_techTypes = [''NfcA'', ''NfcA''], card_type = ''Unknown'',
          cardNumber = ''****'', scannedAt = ''t''\<rparr> \<and>
   \<not> distinct [''NfcA'', ''NfcA'']"
  by (simp add: parseCardData_def maskCardNumber_def falsy_def or_default_def)

section \<open>What the handlers change\<close>

lemma parseCardData_returns: "\<exists>d. parseCardData now tag = Inr d"
  by (cases "tag_id tag")
     (simp_all add: parseCardData_def maskCardNumber_def call_slice_def falsy_def)

lemma scanning_iff: "(phase_of s = Some Scanning) = (nfcSupported s \<and> isScanning s)"
  by (simp add: phase_of_def)

lemma unsupported_iff: "(phase_of s = Some Unsupported) = (\<not> nfcSupported s)"
  by (simp add: phase_of_def)

lemma step_Settle_scanning:
  "consistent s \<Longrightarrow> isScanning s \<Longrightarrow> step (Settle out) s = startScan_resume out s"
  by (simp add: step_def consistent_def)

lemma resume_fields:
  "isScanning (startScan_resume out s) = False"
  "held (startScan_resume out s) = False"
  "releaseCalls (startScan_resume out s) = Suc (releaseCalls s)"
  "nfcSupported (startScan_resume out s) = nfcSupported s"
  "acquireCalls (startScan_resume out s) = acquireCalls s"
  "probeStage (startScan_resume out s) = probeStage s"
  by (cases out; simp add: startScan_resume_def cleanUpNfc_def Let_def
        split: option.splits sum.splits)+

lemma cancel_fields:
  "isScanning (cancelScan s) = False"
  "held (cancelScan s) = False"
  "releaseCalls (cancelScan s) = Suc (releaseCalls s)"
  "nfcSupported (cancelScan s) = nfcSupported s"
  "acquireCalls (cancelScan s) = acquireCalls s"
  "error (cancelScan s) = error s"
  "cardData (cancelScan s) = cardData s"
  "pending (cancelScan s) = pending s"
  "probeStage (cancelScan s) = probeStage s"
  by (simp_all add: cancelScan_def cleanUpNfc_def)

lemma resume_tag:
  "\<exists>d. startScan_resume (Resolved (Some tag) now) s =
         cleanUpNfc (s\<lparr>cardData := Some d, isScanning := False, pending := pending s - 1\<rparr>)"
proof -
  obtain d where "parseCardData now tag = Inr d"
    using parseCardData_returns by blast
  then have "startScan_resume (Resolved (Some tag) now) s =
      cleanUpNfc (s\<lparr>cardData := Some d, isScanning := False, pending := pending s - 1\<rparr>)"
    by (simp add: startScan_resume_def)
  then show ?thesis by blast
qed

lemma step_denied:
  assumes "\<not> nfcSupported s" and "probeStage s = Settled"
  shows "\<not> nfcSupported (step e s) \<and> probeStage (step e s) = Settled \<and>
         acquireCalls (step e s) = acquireCalls s"
  using assms
  by (cases e)
     (simp_all add: step_def startScan_def press_def resume_fields cancel_fields)

lemma run_denied:
  "\<not> nfcSupported s \<Longrightarrow> probeStage s = Settled \<Longrightarrow>
   \<not> nfcSupported (run es s) \<and> acquireCalls (run es s) = acquireCalls s"
proof (induction es arbitrary: s)
  case Nil
  then show ?case by simp
next
  case (Cons e es)
  from step_denied [OF Cons.prems, of e]
  have "\<not> nfcSupported (step e s)" "probeStage (step e s) = Settled"
    "acquireCalls (step e s) = acquireCalls s"
    by simp_all
  with Cons.IH [of "step e s"] show ?case by simp
qed

section \<open>The scan lifecycle\<close>

text \<open>
  Claim C1, as the code has it. In every state of a run the radio is reserved exactly
  while \<open>isScanning\<close> is set; as long as the device has not been found unsupported,
  that is exactly the phase \<open>Scanning\<close>. Every way out of \<open>Scanning\<close> (the wait settling
  with a tag, with no tag or with an error; a cancel command; a press of Cancel) makes
  one release call and leaves the radio free in a phase other than \<open>Scanning\<close>.
\<close>

theorem radio_held_while_scanning:
  assumes "s = run evs initial"
  shows "held s = isScanning s \<and>
         (nfcSupported s \<longrightarrow> held s = (phase_of s = Some Scanning)) \<and>
         (phase_of s = Some Scanning \<longrightarrow>
            (\<forall>out. \<not> held (step (Settle out) s) \<and>
                   phase_of (step (Settle out) s) \<noteq> Some Scanning \<and>
                   releaseCalls (step (Settle out) s) = Suc (releaseCalls s)) \<and>
            (\<forall>e \<in> {CancelCmd, Press CancelButton}.
                   \<not> held (step e s) \<and>
                   phase_of (step e s) \<noteq> Some Scanning \<and>
                   releaseCalls (step e s) = Suc (releaseCalls s)))"
proof -
  have c: "consistent s"
    unfolding assms by (rule consistent_reachable)
  have flag: "held s = isScanning s"
    using c by (simp add: consistent_def)
  have iff: "held s = (phase_of s = Some Scanning)" if "nfcSupported s"
    using that flag by (simp add: scanning_iff)
  have settle: "\<not> held (step (Settle out) s) \<and>
      phase_of (step (Settle out) s) \<noteq> Some Scanning \<and>
      releaseCalls (step (Settle out) s) = Suc (releaseCalls s)"
    if "phase_of s = Some Scanning" for out
    using that c by (simp add: scanning_iff step_Settle_scanning resume_fields)
  have cancel: "\<not> held (step e s) \<and> phase_of (step e s) \<noteq> Some Scanning \<and>
      releaseCalls (step e s) = Suc (releaseCalls s)"
    if "phase_of s = Some Scanning" "e \<in> {CancelCmd, Press CancelButton}" for e
    using that by (auto simp: scanning_iff step_def press_def cancel_fields)
  from flag iff settle cancel show ?thesis by blast
qed

theorem radio_held_while_scanning_witness:
  "held (run [StartCmd] initial) \<and>
   phase_of (run [StartCmd] initial) = Some Scanning \<and>
   \<not> held (run [StartCmd, Settle (Rejected NonError)] initial) \<and>
   releaseCalls (run [StartCmd, Settle (Rejected NonError)] initial) = 1 \<and>
   \<not> held (run [StartCmd, Press CancelButton] initial) \<and>
   releaseCalls (run [StartCmd, Press CancelButton] initial) = 1"
proof -
  let ?s = "run [StartCmd] initial"
  have scanning: "phase_of ?s = Some Scanning"
    by (simp add: step_def startScan_def initial_def phase_of_def)
  have r0: "releaseCalls ?s = 0"
    by (simp add: step_def startScan_def initial_def)
  have on: "nfcSupported ?s" "isScanning ?s"
    by (simp_all add: step_def startScan_def initial_def)
  have run2: "run [StartCmd, e] initial = step e ?s" for e
    by simp
  from radio_held_while_scanning [of ?s "[StartCmd]"] scanning r0 on
  show ?thesis
    unfolding run2 by simp
qed

text \<open>
  Claim C1 says the radio is never reserved outside \<open>Scanning\<close>. \<open>nfcSupported\<close> starts
  as \<^verbatim>\<open>true\<close>, so Start can be pressed before the capability probe has answered; when
  the probe then answers \<^verbatim>\<open>false\<close>, the component shows the unsupported view while the
  radio is still reserved and no release call has been made.
\<close>

theorem held_when_unsupported_counterexample:
  "held (run [Press StartButton, ProbeSettled (Inr False)] initial) \<and>
   phase_of (run [Press StartButton, ProbeSettled (Inr False)] initial) = Some Unsupported \<and>
   releaseCalls (run [Press StartButton, ProbeSettled (Inr False)] initial) = 0"
  by (simp add: step_def press_def startScan_def checkNfcSupport_probed_def initial_def
        phase_of_def)

text \<open>
  Claim C3, as the code has it. A cancel issued while the phase is \<open>Scanning\<close> runs
  \<^verbatim>\<open>cancelScan\<close>; right after it the phase is \<open>Idle\<close>, no error is stored and one release
  call has been made. The suspended \<^verbatim>\<open>startScan\<close> is not discarded: whenever its wait
  settles, its \<^verbatim>\<open>finally\<close> block makes a second release call.
\<close>

theorem cancel_during_scanning:
  assumes "s = run evs initial" and "phase_of s = Some Scanning"
  shows "step CancelCmd s = cancelScan s \<and>
         step (Press CancelButton) s = cancelScan s \<and>
         phase_of (cancelScan s) = Some Idle \<and>
         error (cancelScan s) = None \<and>
         releaseCalls (cancelScan s) = Suc (releaseCalls s) \<and>
         (\<forall>out. releaseCalls (step (Settle out) (cancelScan s)) = Suc (Suc (releaseCalls s)))"
proof -
  have c: "consistent s"
    unfolding assms(1) by (rule consistent_reachable)
  from assms(2) have sc: "nfcSupported s" "isScanning s"
    by (simp_all add: scanning_iff)
  with c have clean: "error s = None" "cardData s = None" "0 < pending s"
    by (simp_all add: consistent_def)
  have cmd: "step CancelCmd s = cancelScan s"
    by (simp add: step_def)
  have btn: "step (Press CancelButton) s = cancelScan s"
    using sc by (simp add: step_def press_def)
  have idle: "phase_of (cancelScan s) = Some Idle"
    using sc clean
    by (simp add: phase_of_def error_box_def card_box_def falsy_def cancel_fields)
  have err: "error (cancelScan s) = None"
    using clean by (simp add: cancel_fields)
  have one: "releaseCalls (cancelScan s) = Suc (releaseCalls s)"
    by (simp add: cancel_fields)
  have two: "releaseCalls (step (Settle out) (cancelScan s)) = Suc (Suc (releaseCalls s))" for out
    using clean by (simp add: step_def cancel_fields resume_fields)
  from cmd btn idle err one two show ?thesis by blast
qed

theorem cancel_during_scanning_witness:
  "phase_of (run [Press StartButton] initial) = Some Scanning \<and>
   phase_of (run [Press StartButton, Press CancelButton] initial) = Some Idle \<and>
   error (run [Press StartButton, Press CancelButton] initial) = None \<and>
   releaseCalls (run [Press StartButton, Press CancelButton] initial) = 1 \<and>
   releaseCalls (run [Press StartButton, Press CancelButton, Settle (Resolved None [])]
      initial) = 2"
proof -
  let ?s = "run [Press StartButton] initial"
  have scanning: "phase_of ?s = Some Scanning"
    by (simp add: step_def press_def startScan_def initial_def phase_of_def)
  have r0: "releaseCalls ?s = 0"
    by (simp add: step_def press_def startScan_def initial_def)
  have run2: "run [Press StartButton, e] initial = step e ?s" for e
    by simp
  have run3: "run [Press StartButton, e, e'] initial = step e' (step e ?s)" for e e'
    by simp
  from cancel_during_scanning [of ?s "[Press StartButton]", OF refl scanning] scanning r0
  show ?thesis
    unfolding run2 run3 by simp
qed

text \<open>
  Claim C3 says a cancelled attempt ends in \<open>Idle\<close> with no error after exactly one
  release call. When the cancelled wait is rejected, the handlers of \<^verbatim>\<open>startScan\<close>
  run: two release calls have been made, the error is stored and the phase is \<open>Failed\<close>.
\<close>

theorem cancel_then_reject_counterexample:
  "phase_of (run [Press StartButton] initial) = Some Scanning \<and>
   phase_of (run [Press StartButton, Press CancelButton, Settle (Rejected (ErrorObj ''cancelled''))]
      initial) = Some Failed \<and>
   error (run [Press StartButton, Press CancelButton, Settle (Rejected (ErrorObj ''cancelled''))]
      initial) = Some ''cancelled'' \<and>
   releaseCalls (run [Press StartButton, Press CancelButton, Settle (Rejected (ErrorObj ''cancelled''))]
      initial) = 2"
  by (simp add: step_def press_def startScan_def cancelScan_def startScan_resume_def
        cleanUpNfc_def initial_def errorMessage_def phase_of_def error_box_def card_box_def
        falsy_def)




text \<open>
  Claim C6, as the code has it. While \<open>isScanning\<close> is set no error is stored, and in
  the phase \<open>Failed\<close> one is. Out of the phase \<open>Scanning\<close>: a cancel leads to \<open>Idle\<close>
  with no error; a tag that was read leads to \<open>Success\<close> with no error; a tag read
  returning \<^verbatim>\<open>null\<close> stores no error; a rejection stores its message, and leads to
  \<open>Failed\<close> when the message is not empty.
\<close>

theorem error_after_scanning:
  assumes "s = run evs initial"
  shows "(isScanning s \<longrightarrow> error s = None) \<and>
         (phase_of s = Some Failed \<longrightarrow> error s \<noteq> None) \<and>
         (phase_of s = Some Scanning \<longrightarrow>
            error (cancelScan s) = None \<and>
            phase_of (cancelScan s) = Some Idle \<and>
            (\<forall>tag now.
               error (step (Settle (Resolved (Some tag) now)) s) = None \<and>
               phase_of (step (Settle (Resolved (Some tag) now)) s) = Some Success) \<and>
            (\<forall>now. error (step (Settle (Resolved None now)) s) = None) \<and>
            (\<forall>err.
               error (step (Settle (Rejected err)) s) = Some (errorMessage err) \<and>
               (errorMessage err \<noteq> [] \<longrightarrow>
                  phase_of (step (Settle (Rejected err)) s) = Some Failed)))"
proof -
  have c: "consistent s"
    unfolding assms by (rule consistent_reachable)
  have quiet: "error s = None" if "isScanning s"
    using that c by (simp add: consistent_def)
  have failed: "error s \<noteq> None" if "phase_of s = Some Failed"
    using that
    by (auto simp: phase_of_def error_box_def falsy_def split: if_splits option.splits)
  have exits:
    "error (cancelScan s) = None \<and>
     phase_of (cancelScan s) = Some Idle \<and>
     (\<forall>tag now.
        error (step (Settle (Resolved (Some tag) now)) s) = None \<and>
        phase_of (step (Settle (Resolved (Some tag) now)) s) = Some Success) \<and>
     (\<forall>now. error (step (Settle (Resolved None now)) s) = None) \<and>
     (\<forall>err.
        error (step (Settle (Rejected err)) s) = Some (errorMessage err) \<and>
        (errorMessage err \<noteq> [] \<longrightarrow>
           phase_of (step (Settle (Rejected err)) s) = Some Failed))"
    if sc: "phase_of s = Some Scanning"
  proof -
    from sc have on: "nfcSupported s" "isScanning s"
      by (simp_all add: scanning_iff)
    with c have clean: "error s = None" "cardData s = None" "0 < pending s"
      by (simp_all add: consistent_def)
    have st: "step (Settle out) s = startScan_resume out s" for out
      using c on by (simp add: step_Settle_scanning)
    have cancel: "error (cancelScan s) = None \<and> phase_of (cancelScan s) = Some Idle"
      using on clean
      by (simp add: phase_of_def error_box_def card_box_def falsy_def cancel_fields)
    have tag: "error (step (Settle (Resolved (Some tag) now)) s) = None \<and>
        phase_of (step (Settle (Resolved (Some tag) now)) s) = Some Success" for tag now
    proof -
      obtain d where "startScan_resume (Resolved (Some tag) now) s =
          cleanUpNfc (s\<lparr>cardData := Some d, isScanning := False, pending := pending s - 1\<rparr>)"
        using resume_tag by blast
      then show ?thesis
        using on clean
        by (simp add: st cleanUpNfc_def phase_of_def error_box_def card_box_def falsy_def)
    qed
    have null: "error (step (Settle (Resolved None now)) s) = None" for now
      using clean by (simp add: st startScan_resume_def cleanUpNfc_def)
    have rej: "error (step (Settle (Rejected err)) s) = Some (errorMessage err) \<and>
        (errorMessage err \<noteq> [] \<longrightarrow>
           phase_of (step (Settle (Rejected err)) s) = Some Failed)" for err
      using on clean
      by (simp add: st startScan_resume_def cleanUpNfc_def phase_of_def error_box_def
            card_box_def falsy_def)
    from cancel tag null rej show ?thesis by blast
  qed
  from quiet failed exits show ?thesis by blast
qed

theorem error_after_scanning_witness:
  "phase_of (run [StartCmd] initial) = Some Scanning \<and>
   error (run [StartCmd] initial) = None \<and>
   error (run [StartCmd, Settle (Rejected NonError)] initial) = Some ''Failed to read NFC tag'' \<and>
   phase_of (run [StartCmd, Settle (Rejected NonError)] initial) = Some Failed \<and>
   error (run [StartCmd, Settle (Resolved (Some \<lparr>tag_id = Some ''04A1B2C3'',
      tag_techTypes = None, tag_type = None\<rparr>) ''now'')] initial) = None \<and>
   phase_of (run [StartCmd, Settle (Resolved (Some \<lparr>tag_id = Some ''04A1B2C3'',
      tag_techTypes = None, tag_type = None\<rparr>) ''now'')] initial) = Some Success"
proof -
  let ?s = "run [StartCmd] initial"
  have scanning: "phase_of ?s = Some Scanning"
    by (simp add: step_def startScan_def initial_def phase_of_def)
  have on: "isScanning ?s"
    by (simp add: step_def startScan_def initial_def)
  have msg: "errorMessage NonError = ''Failed to read NFC tag''"
    by (simp add: errorMessage_def)
  have run2: "run [StartCmd, e] initial = step e ?s" for e
    by simp
  from error_after_scanning [of ?s "[StartCmd]"] scanning on msg
  show ?thesis
    unfolding run2 by simp
qed

text \<open>
  Claim C6 says an error is stored only in the phase \<open>Failed\<close>. A rejection with an
  \<^verbatim>\<open>Error\<close> whose message is empty stores the empty string, which is not \<^verbatim>\<open>null\<close>,
  and the component shows no error box: the phase is \<open>Idle\<close>. And an attempt started
  before the capability probe answers \<^verbatim>\<open>false\<close> stores its error in the phase
  \<open>Unsupported\<close>.
\<close>

theorem error_outside_failed_counterexample:
  "error (run [Press StartButton, Settle (Rejected (ErrorObj []))] initial) = Some [] \<and>
   phase_of (run [Press StartButton, Settle (Rejected (ErrorObj []))] initial) = Some Idle \<and>
   error (run [Press StartButton, ProbeSettled (Inr False), Settle (Rejected NonError)] initial)
     = Some ''Failed to read NFC tag'' \<and>
   phase_of (run [Press StartButton, ProbeSettled (Inr False), Settle (Rejected NonError)] initial)
     = Some Unsupported"
  by (simp add: step_def press_def startScan_def startScan_resume_def cleanUpNfc_def
        checkNfcSupport_probed_def initial_def errorMessage_def phase_of_def error_box_def
        card_box_def falsy_def)

text \<open>
  Claim C7, as the code has it. When the capability probe answers \<^verbatim>\<open>false\<close> or throws,
  or the initialisation throws, the phase becomes \<open>Unsupported\<close>. From the moment the
  phase is \<open>Unsupported\<close> it stays so over every later sequence of events, and no
  further acquisition call is made.
\<close>

theorem unsupported_is_terminal:
  assumes "s = run evs initial"
  shows "(probeStage s = AwaitingProbe \<longrightarrow>
            phase_of (step (ProbeSettled (Inr False)) s) = Some Unsupported \<and>
            (\<forall>err. phase_of (step (ProbeSettled (Inl err)) s) = Some Unsupported)) \<and>
         (probeStage s = AwaitingInit \<longrightarrow>
            (\<forall>err. phase_of (step (InitSettled (Inl err)) s) = Some Unsupported)) \<and>
         (phase_of s = Some Unsupported \<longrightarrow>
            (\<forall>later. phase_of (run later s) = Some Unsupported \<and>
                     acquireCalls (run later s) = acquireCalls s))"
proof -
  have c: "consistent s"
    unfolding assms by (rule consistent_reachable)
  have probe: "phase_of (step (ProbeSettled (Inr False)) s) = Some Unsupported \<and>
      (\<forall>err. phase_of (step (ProbeSettled (Inl err)) s) = Some Unsupported)"
    if "probeStage s = AwaitingProbe"
    using that by (simp add: unsupported_iff step_def checkNfcSupport_probed_def)
  have init: "\<forall>err. phase_of (step (InitSettled (Inl err)) s) = Some Unsupported"
    if "probeStage s = AwaitingInit"
    using that by (simp add: unsupported_iff step_def checkNfcSupport_started_def)
  have stays: "phase_of (run later s) = Some Unsupported \<and>
      acquireCalls (run later s) = acquireCalls s"
    if "phase_of s = Some Unsupported" for later
  proof -
    from that have off: "\<not> nfcSupported s"
      by (simp add: unsupported_iff)
    with c have "probeStage s = Settled"
      by (simp add: consistent_def)
    with off show ?thesis
      using run_denied [of s later] by (simp add: unsupported_iff)
  qed
  from probe init stays show ?thesis by blast
qed

theorem unsupported_is_terminal_witness:
  "probeStage initial = AwaitingProbe \<and>
   phase_of (run [ProbeSettled (Inr False)] initial) = Some Unsupported \<and>
   phase_of (run [StartCmd, Press StartButton, CancelCmd, ProbeSettled (Inr True)]
       (run [ProbeSettled (Inr False)] initial)) = Some Unsupported \<and>
   acquireCalls (run [StartCmd, Press StartButton, CancelCmd, ProbeSettled (Inr True)]
       (run [ProbeSettled (Inr False)] initial)) = 0"
proof -
  let ?s = "run [ProbeSettled (Inr False)] initial"
  have first: "probeStage initial = AwaitingProbe"
    by (simp add: initial_def)
  from unsupported_is_terminal [of initial "[]"] first
  have off: "phase_of ?s = Some Unsupported"
    by simp
  have a0: "acquireCalls ?s = 0"
    by (simp add: step_def checkNfcSupport_probed_def initial_def)
  from unsupported_is_terminal [of ?s "[ProbeSettled (Inr False)]"] off
  have "\<forall>later. phase_of (run later ?s) = Some Unsupported \<and>
      acquireCalls (run later ?s) = acquireCalls ?s"
    by simp
  then have "phase_of (run [StartCmd, Press StartButton, CancelCmd, ProbeSettled (Inr True)] ?s)
        = Some Unsupported \<and>
      acquireCalls (run [StartCmd, Press StartButton, CancelCmd, ProbeSettled (Inr True)] ?s)
        = acquireCalls ?s"
    by (rule spec)
  with first off a0 show ?thesis
    by simp
qed

text \<open>
  Claim C7 says no acquisition call is ever attempted on an unsupported device.
  \<open>nfcSupported\<close> starts as \<^verbatim>\<open>true\<close>: a Start pressed before the probe has answered
  \<^verbatim>\<open>false\<close> or thrown, or before a failing initialisation has settled, passes the guard
  of \<^verbatim>\<open>startScan\<close> and makes an acquisition call.
\<close>

theorem acquire_before_probe_counterexample:
  "acquireCalls (run [Press StartButton, ProbeSettled (Inr False)] initial) = 1 \<and>
   phase_of (run [Press StartButton, ProbeSettled (Inr False)] initial) = Some Unsupported \<and>
   acquireCalls (run [Press StartButton, ProbeSettled (Inl NonError)] initial) = 1 \<and>
   phase_of (run [Press StartButton, ProbeSettled (Inl NonError)] initial) = Some Unsupported \<and>
   acquireCalls (run [ProbeSettled (Inr True), Press StartButton, InitSettled (Inl NonError)]
      initial) = 1 \<and>
   phase_of (run [ProbeSettled (Inr True), Press StartButton, InitSettled (Inl NonError)]
      initial) = Some Unsupported"
  by (simp add: step_def press_def startScan_def checkNfcSupport_probed_def
        checkNfcSupport_started_def initial_def phase_of_def)

text \<open>
  Claim C10. When the wait of an attempt in phase \<open>Scanning\<close> is fulfilled and the tag
  read returns \<^verbatim>\<open>null\<close>, no card and no error are stored, scanning stops, one release
  call is made, and the phase is \<open>Idle\<close>.
\<close>

theorem null_tag_returns_to_idle:
  assumes "s = run evs initial" and "phase_of s = Some Scanning"
  shows "cardData (step (Settle (Resolved None now)) s) = None \<and>
         error (step (Settle (Resolved None now)) s) = None \<and>
         \<not> isScanning (step (Settle (Resolved None now)) s) \<and>
         phase_of (step (Settle (Resolved None now)) s) = Some Idle \<and>
         releaseCalls (step (Settle (Resolved None now)) s) = Suc (releaseCalls s) \<and>
         \<not> held (step (Settle (Resolved None now)) s)"
proof -
  have c: "consistent s"
    unfolding assms(1) by (rule consistent_reachable)
  from assms(2) have sc: "nfcSupported s" "isScanning s"
    by (simp_all add: scanning_iff)
  with c have clean: "error s = None" "cardData s = None" "0 < pending s"
    by (simp_all add: consistent_def)
  have "step (Settle (Resolved None now)) s = startScan_resume (Resolved None now) s"
    using clean by (simp add: step_def)
  then show ?thesis
    using sc clean
    by (simp add: startScan_resume_def cleanUpNfc_def phase_of_def error_box_def
          card_box_def falsy_def)
qed

theorem null_tag_returns_to_idle_witness:
  "phase_of (run [StartCmd] initial) = Some Scanning \<and>
   phase_of (run [StartCmd, Settle (Resolved None [])] initial) = Some Idle \<and>
   cardData (run [StartCmd, Settle (Resolved None [])] initial) = None \<and>
   error (run [StartCmd, Settle (Resolved None [])] initial) = None \<and>
   releaseCalls (run [StartCmd, Settle (Resolved None [])] initial) = 1"
proof -
  let ?s = "run [StartCmd] initial"
  have scanning: "phase_of ?s = Some Scanning"
    by (simp add: step_def startScan_def initial_def phase_of_def)
  have r0: "releaseCalls ?s = 0"
    by (simp add: step_def startScan_def initial_def)
  have run2: "run [StartCmd, e] initial = step e ?s" for e
    by simp
  from null_tag_returns_to_idle [of ?s "[StartCmd]" "[]", OF refl scanning] scanning r0
  show ?thesis
    unfolding run2 by simp
qed

end
